theory Spec2Isabelle
  imports Main
begin

section \<open>Regular expressions of the style catalog\<close>

text \<open>
  The patterns of \<open>CASES\<close> in \<open>main.py\<close> are built from character classes, literal
  characters, grouping, alternation and the postfix operators \<open>*\<close> and \<open>+\<close>. They are
  kept as syntax trees; a character class is the list of its inclusive ranges, a single
  character \<open>c\<close> being the range from \<open>c\<close> to \<open>c\<close>. \<open>Never\<close> is not part of the pattern
  syntax: it only appears while a pattern is matched.

  A string is a list of 8-bit characters. Every character the patterns name is ASCII, and
  a range is compared by character code, as \<open>re\<close> compares code points without the
  \<open>IGNORECASE\<close> flag; a character outside ASCII is in no class of the catalog.
\<close>

datatype regex =
    Never
  | Empty
  | Chars "(char \<times> char) list"
  | Seq regex regex
  | Alt regex regex
  | Star regex

definition Lit :: "char \<Rightarrow> regex" where
  "Lit c = Chars [(c, c)]"

definition Plus :: "regex \<Rightarrow> regex" where
  "Plus r = Seq r (Star r)"

fun seqs :: "regex list \<Rightarrow> regex" where
  "seqs [] = Empty"
| "seqs [r] = r"
| "seqs (r # rs) = Seq r (seqs rs)"

fun in_class :: "char \<Rightarrow> (char \<times> char) list \<Rightarrow> bool" where
  "in_class c [] = False"
| "in_class c ((lo, hi) # rest) =
     ((of_char lo \<le> (of_char c :: nat) \<and> (of_char c :: nat) \<le> of_char hi) \<or> in_class c rest)"

text \<open>
  What it means for a pattern to match a whole string: the standard reading of the
  pattern syntax, given as derivation rules. The patterns of the catalog have no
  back-reference, look-around or possessive operator, and no repeated group that can
  match the empty string, so \<open>fullmatch\<close> of \<open>re\<close> succeeds exactly on these strings.
\<close>

inductive matches :: "regex \<Rightarrow> string \<Rightarrow> bool" where
  m_empty: "matches Empty []"
| m_chars: "in_class c cl \<Longrightarrow> matches (Chars cl) [c]"
| m_seq: "matches r xs \<Longrightarrow> matches s ys \<Longrightarrow> matches (Seq r s) (xs @ ys)"
| m_alt1: "matches r xs \<Longrightarrow> matches (Alt r s) xs"
| m_alt2: "matches s xs \<Longrightarrow> matches (Alt r s) xs"
| m_star0: "matches (Star r) []"
| m_star: "matches r xs \<Longrightarrow> matches (Star r) ys \<Longrightarrow> matches (Star r) (xs @ ys)"

text \<open>
  \<open>reg.fullmatch(s)\<close> as a computation: consume the string one character at a time,
  each time replacing the pattern by the pattern of what may follow, and accept when the
  pattern left at the end admits the empty string. \<open>seq\<close> and \<open>alt\<close> build \<open>Seq\<close> and
  \<open>Alt\<close> while dropping the parts that can no longer match.
\<close>

fun nullable :: "regex \<Rightarrow> bool" where
  "nullable Never = False"
| "nullable Empty = True"
| "nullable (Chars cl) = False"
| "nullable (Seq r s) = (nullable r \<and> nullable s)"
| "nullable (Alt r s) = (nullable r \<or> nullable s)"
| "nullable (Star r) = True"

fun seq :: "regex \<Rightarrow> regex \<Rightarrow> regex" where
  "seq Never s = Never"
| "seq Empty s = s"
| "seq r Never = Never"
| "seq r s = Seq r s"

fun alt :: "regex \<Rightarrow> regex \<Rightarrow> regex" where
  "alt Never s = s"
| "alt r Never = r"
| "alt r s = Alt r s"

fun after :: "char \<Rightarrow> regex \<Rightarrow> regex" where
  "after c Never = Never"
| "after c Empty = Never"
| "after c (Chars cl) = (if in_class c cl then Empty else Never)"
| "after c (Seq r s) =
     (if nullable r then alt (seq (after c r) s) (after c s) else seq (after c r) s)"
| "after c (Alt r s) = alt (after c r) (after c s)"
| "after c (Star r) = seq (after c r) (Star r)"

fun fullmatch :: "regex \<Rightarrow> string \<Rightarrow> bool" where
  "fullmatch r [] = nullable r"
| "fullmatch r (c # cs) = fullmatch (after c r) cs"

section \<open>The style catalog and the classifier\<close>

definition upper :: "(char \<times> char) list" where
  "upper = [(CHR ''A'', CHR ''Z'')]"

definition lower_digit :: "(char \<times> char) list" where
  "lower_digit = [(CHR ''a'', CHR ''z''), (CHR ''0'', CHR ''9'')]"

definition upper_digit :: "(char \<times> char) list" where
  "upper_digit = [(CHR ''A'', CHR ''Z''), (CHR ''0'', CHR ''9'')]"

text \<open>
  \<open>CASES\<close> is a dict from compiled pattern to label. Its twelve keys are pairwise
  different patterns, so the dict has twelve items, iterated in insertion order; it is
  kept as the list of its items. Each entry is preceded by the pattern as the source
  writes it; in the eleventh the source escapes the dot inside the class with a
  backslash, which is the literal dot.
\<close>

definition CASES :: "(regex \<times> string) list" where
  "CASES = [
    \<comment> \<open>[A-Z][a-z0-9]*([A-Z][a-z0-9]*)*\<close>
    (seqs [Chars upper, Star (Chars lower_digit),
           Star (seqs [Chars upper, Star (Chars lower_digit)])],
     ''MixedCase''),
    \<comment> \<open>[a-z_0-9]+\<close>
    (Plus (Chars [(CHR ''a'', CHR ''z''), (CHR ''_'', CHR ''_''), (CHR ''0'', CHR ''9'')]),
     ''snake_case''),
    \<comment> \<open>[a-z0-9]+([A-Z][a-z0-9]*)*\<close>
    (seqs [Plus (Chars lower_digit),
           Star (seqs [Chars upper, Star (Chars lower_digit)])],
     ''camelCase''),
    \<comment> \<open>[A-Z][a-z0-9]*(_[a-z0-9]+)*\<close>
    (seqs [Chars upper, Star (Chars lower_digit),
           Star (seqs [Lit CHR ''_'', Plus (Chars lower_digit)])],
     ''Mixed_snake_case''),
    \<comment> \<open>[A-Z0-9_]+\<close>
    (Plus (Chars [(CHR ''A'', CHR ''Z''), (CHR ''0'', CHR ''9''), (CHR ''_'', CHR ''_'')]),
     ''UPPER_CASE''),
    \<comment> \<open>[A-Z][a-z0-9]*(_[A-Z][a-z0-9]*)*\<close>
    (seqs [Chars upper, Star (Chars lower_digit),
           Star (seqs [Lit CHR ''_'', Chars upper, Star (Chars lower_digit)])],
     ''Mixed_Snake_Case''),
    \<comment> \<open>([a-z0-9]+[A-Z][a-z0-9]+|[a-z0-9]+)(_([a-z0-9]+[A-Z][a-z0-9]+|[a-z0-9]+))+\<close>
    (seqs [Alt (seqs [Plus (Chars lower_digit), Chars upper, Plus (Chars lower_digit)])
               (Plus (Chars lower_digit)),
           Plus (seqs [Lit CHR ''_'',
                       Alt (seqs [Plus (Chars lower_digit), Chars upper,
                                  Plus (Chars lower_digit)])
                           (Plus (Chars lower_digit))])],
     ''snakeCamel_case''),
    \<comment> \<open>([a-z0-9]+|[A-Z0-9]+)(_([a-z0-9]+|[A-Z0-9]+))+\<close>
    (seqs [Alt (Plus (Chars lower_digit)) (Plus (Chars upper_digit)),
           Plus (seqs [Lit CHR ''_'',
                       Alt (Plus (Chars lower_digit)) (Plus (Chars upper_digit))])],
     ''changing_CASE''),
    \<comment> \<open>Py[A-Z0-9]*(_([A-Z0-9]+|[A-Z0-9]+))+\<close>
    (seqs [Lit CHR ''P'', Lit CHR ''y'', Star (Chars upper_digit),
           Plus (seqs [Lit CHR ''_'',
                       Alt (Plus (Chars upper_digit)) (Plus (Chars upper_digit))])],
     ''Py_CASES''),
    \<comment> \<open>[A-Z0-9]*(_([A-Z0-9]+|[A-Z0-9]+))*_[A-Z0-9]+[_a-z0-9]+\<close>
    (seqs [Star (Chars upper_digit),
           Star (seqs [Lit CHR ''_'',
                       Alt (Plus (Chars upper_digit)) (Plus (Chars upper_digit))]),
           Lit CHR ''_'', Plus (Chars upper_digit),
           Plus (Chars [(CHR ''_'', CHR ''_''), (CHR ''a'', CHR ''z''),
                        (CHR ''0'', CHR ''9'')])],
     ''LOWFINAL_CAse''),
    \<comment> \<open>[A-Z0-9_]+v[0-9.]+[_A-Z0-9]+\<close>
    (seqs [Plus (Chars [(CHR ''A'', CHR ''Z''), (CHR ''0'', CHR ''9''),
                        (CHR ''_'', CHR ''_'')]),
           Lit CHR ''v'',
           Plus (Chars [(CHR ''0'', CHR ''9''), (CHR ''.'', CHR ''.'')]),
           Plus (Chars [(CHR ''_'', CHR ''_''), (CHR ''A'', CHR ''Z''),
                        (CHR ''0'', CHR ''9'')])],
     ''VERSIONv1.1_CASE''),
    \<comment> \<open>the empty pattern\<close>
    (Empty, ''_'')
  ]"

datatype error = ValueError string

text \<open>\<open>name.lstrip(chars)\<close>: drop leading characters for as long as they are in \<open>chars\<close>.\<close>

fun lstrip :: "string \<Rightarrow> string \<Rightarrow> string" where
  "lstrip chars [] = []"
| "lstrip chars (c # cs) = (if c \<in> set chars then lstrip chars cs else c # cs)"

text \<open>
  The loop of \<open>real_case\<close> over the items of the catalog; running off the end of the
  items is the \<open>raise\<close> after the loop.
\<close>

fun real_case_loop :: "(regex \<times> string) list \<Rightarrow> string \<Rightarrow> error + string" where
  "real_case_loop [] name = Inl (ValueError (''Word '' @ name @ '' have no case''))"
| "real_case_loop ((reg, case') # rest) name =
     (if fullmatch reg (lstrip ''_'' name) then Inr case' else real_case_loop rest name)"

definition real_case :: "string \<Rightarrow> error + string" where
  "real_case name = real_case_loop CASES name"

section \<open>Objects and the expected style\<close>

text \<open>
  \<open>expected_case\<close> looks at an object only through \<open>inspect.isclass\<close>,
  \<open>inspect.isfunction\<close>, \<open>inspect.ismodule\<close>, \<open>isinstance\<close>, \<open>type\<close> and its
  text in the error message. A class is its qualified name, its direct bases and its
  metaclass (\<open>None\<close> when that is \<open>type\<close>). An object is either a class, or an instance
  of a class together with the text \<open>str\<close> gives for it. \<open>type(x)\<close> is a class for every
  object \<open>x\<close>: the class of an instance, the metaclass of a class.
  \<open>inspect.isclass(x)\<close> is \<open>isinstance(x, type)\<close>, which holds of the classes and of
  nothing else. \<open>isinstance(x, c)\<close> holds when \<open>c\<close> is the type of \<open>x\<close> or one of its
  ancestors, so \<open>True\<close>, whose type \<open>bool\<close> has the base \<open>int\<close>, is an instance of
  \<open>int\<close>.
\<close>

datatype pyclass =
  PyClass (class_name: string) (class_bases: "pyclass list") (class_meta: "pyclass option")

datatype pyobj = ClassObj pyclass | Instance pyclass string

definition object_cls :: pyclass where
  "object_cls = PyClass ''object'' [] None"

definition builtin :: "string \<Rightarrow> pyclass" where
  "builtin name = PyClass name [object_cls] None"

definition type_cls :: pyclass where
  "type_cls = builtin ''type''"

fun type_of :: "pyobj \<Rightarrow> pyclass" where
  "type_of (ClassObj c) = (case class_meta c of None \<Rightarrow> type_cls | Some m \<Rightarrow> m)"
| "type_of (Instance c text) = c"

fun issubclass :: "pyclass \<Rightarrow> pyclass \<Rightarrow> bool" where
  "issubclass (PyClass name bases meta) d =
     (PyClass name bases meta = d \<or> list_ex (\<lambda>b. issubclass b d) bases)"

text \<open>\<open>isinstance(x, classes)\<close> with a tuple of classes.\<close>

definition isinstance :: "pyobj \<Rightarrow> pyclass list \<Rightarrow> bool" where
  "isinstance x classes = list_ex (issubclass (type_of x)) classes"

fun isclass :: "pyobj \<Rightarrow> bool" where
  "isclass (ClassObj c) = True"
| "isclass (Instance c text) = False"

definition isfunction :: "pyobj \<Rightarrow> bool" where
  "isfunction x = isinstance x [builtin ''function'']"

definition ismodule :: "pyobj \<Rightarrow> bool" where
  "ismodule x = isinstance x [builtin ''module'']"

fun str_of :: "pyobj \<Rightarrow> string" where
  "str_of (ClassObj c) = ''<class '' @ [CHR 0x27] @ class_name c @ [CHR 0x27] @ ''>''"
| "str_of (Instance c text) = text"

text \<open>
  \<open>type_to_case\<close> is a dict whose five keys are five different function objects; it is
  kept as the list of its items, in insertion order.
\<close>

definition type_to_case :: "((pyobj \<Rightarrow> bool) \<times> string) list" where
  "type_to_case = [
     (isclass, ''MixedCase''),
     (isfunction, ''snake_case''),
     (ismodule, ''snake_case''),
     (\<lambda>x. isinstance x [builtin ''str'', builtin ''bytes'', builtin ''int'',
                         builtin ''float'', builtin ''list'', builtin ''tuple'',
                         builtin ''set'', builtin ''frozenset'', builtin ''dict''],
      ''UPPER_CASE''),
     (\<lambda>x. isclass (ClassObj (type_of x)), ''UPPER_CASE'')
   ]"

fun expected_case_loop ::
  "((pyobj \<Rightarrow> bool) \<times> string) list \<Rightarrow> pyobj \<Rightarrow> string \<Rightarrow> error + string" where
  "expected_case_loop [] obj lib_name =
     Inl (ValueError (''Object '' @ [CHR 0x27] @ str_of obj @ [CHR 0x27] @ '' of type ''
        @ str_of (ClassObj (type_of obj)) @ '' found in lib '' @ [CHR 0x27] @ lib_name
        @ [CHR 0x27] @ '' is not handled by expected_case function''))"
| "expected_case_loop ((type', case') # rest) obj lib_name =
     (if type' obj then Inr case' else expected_case_loop rest obj lib_name)"

definition expected_case :: "pyobj \<Rightarrow> string \<Rightarrow> error + string" where
  "expected_case obj lib_name = expected_case_loop type_to_case obj lib_name"

section \<open>The scan and its two tables\<close>

text \<open>
  \<open>importlib.import_module\<close> is a parameter of the model: it maps a library name to the
  items of the module's \<open>__dict__\<close>, or to \<open>None\<close> when the import raises
  \<open>ImportError\<close>. \<open>objects_in_lib\<close> then yields nothing.
\<close>

definition startswith :: "string \<Rightarrow> string \<Rightarrow> bool" where
  "startswith s prefix = (take (length prefix) s = prefix)"

definition objects_in_lib ::
  "(string \<Rightarrow> (string \<times> pyobj) list option) \<Rightarrow> string \<Rightarrow> (pyobj \<times> string) list" where
  "objects_in_lib import_module lib_name =
     (case import_module lib_name of
        None \<Rightarrow> []
      | Some items \<Rightarrow>
          map (\<lambda>(obj_name, obj). (obj, obj_name))
            (filter (\<lambda>(obj_name, obj). \<not> startswith obj_name ''__'') items))"

text \<open>
  \<open>acc\<close> and \<open>counter\<close> are three levels of \<open>defaultdict\<close>. Reading a missing key of a
  \<open>defaultdict\<close> stores the default under that key and returns it.
\<close>

type_synonym 'v table = "string \<rightharpoonup> (string \<rightharpoonup> (string \<rightharpoonup> 'v))"

record tables =
  acc :: "(pyclass \<times> string) set table"
  counter :: "int table"

definition or_default :: "'v \<Rightarrow> 'v option \<Rightarrow> 'v" where
  "or_default d v = (case v of None \<Rightarrow> d | Some x \<Rightarrow> x)"

text \<open>
  \<open>t[lib][exp][real] = f(t[lib][exp][real])\<close>, each level created when missing. The
  innermost default is \<open>d\<close>.
\<close>

definition update_at ::
  "'v table \<Rightarrow> 'v \<Rightarrow> string \<Rightarrow> string \<Rightarrow> string \<Rightarrow> ('v \<Rightarrow> 'v) \<Rightarrow> 'v table" where
  "update_at t d lib exp real f =
     (let by_lib = or_default Map.empty (t lib);
          by_exp = or_default Map.empty (by_lib exp);
          v = or_default d (by_exp real)
      in t(lib \<mapsto> by_lib(exp \<mapsto> by_exp(real \<mapsto> f v))))"

text \<open>
  The two statements of the loop body. Each evaluates \<open>expected_case(obj)\<close> (the library
  name left at its default, the empty string) and \<open>real_case(obj_name)\<close>; an exception of
  either leaves the loop and ends the program.
\<close>

definition add_to_acc ::
  "(pyclass \<times> string) set table \<Rightarrow> string \<Rightarrow> pyobj \<Rightarrow> string
     \<Rightarrow> error + (pyclass \<times> string) set table" where
  "add_to_acc t lib_name obj obj_name =
     (case expected_case obj [] of
        Inl e \<Rightarrow> Inl e
      | Inr exp \<Rightarrow>
          (case real_case obj_name of
             Inl e \<Rightarrow> Inl e
           | Inr real \<Rightarrow>
               Inr (update_at t {} lib_name exp real (insert (type_of obj, obj_name)))))"

definition add_to_counter ::
  "int table \<Rightarrow> string \<Rightarrow> pyobj \<Rightarrow> string \<Rightarrow> error + int table" where
  "add_to_counter t lib_name obj obj_name =
     (case expected_case obj [] of
        Inl e \<Rightarrow> Inl e
      | Inr exp \<Rightarrow>
          (case real_case obj_name of
             Inl e \<Rightarrow> Inl e
           | Inr real \<Rightarrow> Inr (update_at t 0 lib_name exp real (\<lambda>n. n + 1))))"

definition record_symbol :: "tables \<Rightarrow> string \<Rightarrow> pyobj \<times> string \<Rightarrow> error + tables" where
  "record_symbol st lib_name entry =
     (case add_to_acc (acc st) lib_name (fst entry) (snd entry) of
        Inl e \<Rightarrow> Inl e
      | Inr a \<Rightarrow>
          (case add_to_counter (counter st) lib_name (fst entry) (snd entry) of
             Inl e \<Rightarrow> Inl e
           | Inr c \<Rightarrow> Inr \<lparr>acc = a, counter = c\<rparr>))"

fun scan_lib :: "tables \<Rightarrow> string \<Rightarrow> (pyobj \<times> string) list \<Rightarrow> error + tables" where
  "scan_lib st lib_name [] = Inr st"
| "scan_lib st lib_name (entry # entries) =
     (case record_symbol st lib_name entry of
        Inl e \<Rightarrow> Inl e
      | Inr st' \<Rightarrow> scan_lib st' lib_name entries)"

fun scan_libs ::
  "(string \<Rightarrow> (string \<times> pyobj) list option) \<Rightarrow> tables \<Rightarrow> string list \<Rightarrow> error + tables" where
  "scan_libs import_module st [] = Inr st"
| "scan_libs import_module st (lib_name # libs) =
     (case scan_lib st lib_name (objects_in_lib import_module lib_name) of
        Inl e \<Rightarrow> Inl e
      | Inr st' \<Rightarrow> scan_libs import_module st' libs)"

text \<open>
  The main program up to the end of the scan; \<open>libs\<close> are the names \<open>libs_names()\<close>
  yields from the library file.
\<close>

definition main ::
  "(string \<Rightarrow> (string \<times> pyobj) list option) \<Rightarrow> string list \<Rightarrow> error + tables" where
  "main import_module libs =
     scan_libs import_module \<lparr>acc = Map.empty, counter = Map.empty\<rparr> libs"

section \<open>Reading the tables\<close>

text \<open>
  The value stored under the key path \<open>[lib][exp][real]\<close> of a table, \<open>None\<close> when any of
  the three keys is missing.
\<close>

definition lookup3 :: "'v table \<Rightarrow> string \<Rightarrow> string \<Rightarrow> string \<Rightarrow> 'v option" where
  "lookup3 t lib exp real =
     (case t lib of
        None \<Rightarrow> None
      | Some by_lib \<Rightarrow> (case by_lib exp of None \<Rightarrow> None | Some by_exp \<Rightarrow> by_exp real))"

text \<open>
  \<open>sum(counter[lib][exp][real] for real in counter[lib][exp])\<close>; it is \<open>0\<close> when the
  library or the expected style has no entry.
\<close>

definition counter_total :: "int table \<Rightarrow> string \<Rightarrow> string \<Rightarrow> int" where
  "counter_total t lib exp =
     (case t lib of
        None \<Rightarrow> 0
      | Some by_lib \<Rightarrow>
          (case by_lib exp of
             None \<Rightarrow> 0
           | Some by_exp \<Rightarrow> (\<Sum>real \<in> dom by_exp. the (by_exp real))))"

text \<open>
  The observations of a run, in the order the two nested loops of the main program meet
  them: library name, object, object name.
\<close>

definition observations ::
  "(string \<Rightarrow> (string \<times> pyobj) list option) \<Rightarrow> string list
     \<Rightarrow> (string \<times> pyobj \<times> string) list" where
  "observations import_module libs =
     concat (map (\<lambda>lib_name. map (\<lambda>entry. (lib_name, fst entry, snd entry))
                                 (objects_in_lib import_module lib_name)) libs)"

text \<open>
  An observation belongs to the library \<open>lib\<close> and has the expected style \<open>exp\<close>; it
  has the key path \<open>[lib][exp][real]\<close>; the pair it adds to the membership set.
\<close>

fun expected_in :: "string \<Rightarrow> string \<Rightarrow> string \<times> pyobj \<times> string \<Rightarrow> bool" where
  "expected_in lib exp (lib_name, obj, obj_name) =
     (lib_name = lib \<and> expected_case obj [] = Inr exp)"

fun at_path :: "string \<Rightarrow> string \<Rightarrow> string \<Rightarrow> string \<times> pyobj \<times> string \<Rightarrow> bool" where
  "at_path lib exp real (lib_name, obj, obj_name) =
     (lib_name = lib \<and> expected_case obj [] = Inr exp \<and> real_case obj_name = Inr real)"

fun member_of :: "string \<times> pyobj \<times> string \<Rightarrow> pyclass \<times> string" where
  "member_of (lib_name, obj, obj_name) = (type_of obj, obj_name)"

text \<open>
  The two tables hold exactly the observations \<open>xs\<close>: under every key path the counter is
  the number of observations with that path and the membership set is the set of their
  pairs, a path with no observation is missing from both, and every name of \<open>xs\<close> has a
  style.
\<close>

definition recorded :: "tables \<Rightarrow> (string \<times> pyobj \<times> string) list \<Rightarrow> bool" where
  "recorded st xs \<longleftrightarrow>
     (\<forall>l e r. lookup3 (counter st) l e r =
        (if filter (at_path l e r) xs = [] then None
         else Some (int (length (filter (at_path l e r) xs)))))
   \<and> (\<forall>l e r. lookup3 (acc st) l e r =
        (if filter (at_path l e r) xs = [] then None
         else Some (set (map member_of (filter (at_path l e r) xs)))))
   \<and> (\<forall>x \<in> set xs. \<exists>r. real_case (snd (snd x)) = Inr r)"

text \<open>
  An import function for the examples: only \<open>csv\<close> can be imported, and its \<open>__dict__\<close>
  has four items.
\<close>

definition example_import :: "string \<Rightarrow> (string \<times> pyobj) list option" where
  "example_import lib_name =
     (if lib_name = ''csv''
      then Some [(''reader'', Instance (builtin ''function'') ''<function reader>''),
                 (''__doc__'', Instance (builtin ''str'') ''CSV parsing''),
                 (''Dialect'', ClassObj (PyClass ''csv.Dialect'' [object_cls] None)),
                 (''QUOTE_ALL'', Instance (builtin ''int'') ''1'')]
      else None)"

text \<open>
  The labels of all the entries of the catalog whose pattern matches the whole stripped
  name, in catalog order: what the loop of \<open>real_case\<close> would collect if it did not return
  at the first.
\<close>

definition matching_labels :: "string \<Rightarrow> string list" where
  "matching_labels name =
     map snd (filter (\<lambda>(reg, case'). fullmatch reg (lstrip ''_'' name)) CASES)"

section \<open>Statements about the order of a list\<close>


section \<open>The matcher decides full matches\<close>

inductive_cases matches_NeverE: "matches Never xs"
inductive_cases matches_EmptyE: "matches Empty xs"
inductive_cases matches_CharsE: "matches (Chars cl) xs"
inductive_cases matches_SeqE: "matches (Seq r s) xs"
inductive_cases matches_AltE: "matches (Alt r s) xs"

lemma matches_Never [simp]: "\<not> matches Never xs"
  by (auto elim: matches_NeverE)

lemma matches_Empty [simp]: "matches Empty xs \<longleftrightarrow> xs = []"
  by (auto elim: matches_EmptyE intro: m_empty)

lemma matches_Chars: "matches (Chars cl) xs \<longleftrightarrow> (\<exists>c. xs = [c] \<and> in_class c cl)"
  by (auto elim: matches_CharsE intro: m_chars)

lemma matches_Seq: "matches (Seq r s) xs \<longleftrightarrow> (\<exists>ys zs. xs = ys @ zs \<and> matches r ys \<and> matches s zs)"
  by (blast elim: matches_SeqE intro: m_seq)

lemma matches_Alt: "matches (Alt r s) xs \<longleftrightarrow> matches r xs \<or> matches s xs"
  by (auto elim: matches_AltE intro: m_alt1 m_alt2)

lemma matches_Star_Cons:
  assumes "matches r' xs'" and "r' = Star r" and "xs' = c # xs"
  shows "\<exists>ys zs. xs = ys @ zs \<and> matches r (c # ys) \<and> matches (Star r) zs"
  using assms
proof (induction arbitrary: xs rule: matches.induct)
  case (m_star r0 us vs)
  show ?case
  proof (cases us)
    case Nil
    with m_star show ?thesis by simp
  next
    case (Cons u us')
    with m_star.prems m_star.hyps have "xs = us' @ vs" "matches r (c # us')" "matches (Star r) vs"
      by auto
    then show ?thesis by blast
  qed
qed simp_all

lemma nullable_matches: "nullable r \<longleftrightarrow> matches r []"
  by (induction r) (auto simp: matches_Chars matches_Seq matches_Alt intro: m_star0)

lemma matches_seq: "matches (seq r s) xs \<longleftrightarrow> matches (Seq r s) xs"
  by (induction r s rule: seq.induct) (auto simp: matches_Seq)

lemma matches_alt: "matches (alt r s) xs \<longleftrightarrow> matches (Alt r s) xs"
  by (induction r s rule: alt.induct) (auto simp: matches_Alt)

lemma matches_after: "matches (after c r) xs \<longleftrightarrow> matches r (c # xs)"
proof (induction r arbitrary: xs)
  case (Seq r s)
  show ?case
  proof
    assume "matches (after c (Seq r s)) xs"
    then consider (l) ys zs where "xs = ys @ zs" "matches r (c # ys)" "matches s zs"
      | (r) "nullable r" "matches s (c # xs)"
      using Seq.IH by (auto simp: matches_seq matches_alt matches_Seq matches_Alt split: if_splits)
    then show "matches (Seq r s) (c # xs)"
    proof cases
      case l
      then show ?thesis using m_seq [of r "c # ys" s zs] by simp
    next
      case r
      then show ?thesis using m_seq [of r "[]" s "c # xs"] by (simp add: nullable_matches)
    qed
  next
    assume "matches (Seq r s) (c # xs)"
    then obtain ys zs where split: "c # xs = ys @ zs" "matches r ys" "matches s zs"
      by (auto simp: matches_Seq)
    show "matches (after c (Seq r s)) xs"
    proof (cases ys)
      case Nil
      with split Seq.IH show ?thesis
        by (auto simp: matches_seq matches_alt matches_Seq matches_Alt nullable_matches)
    next
      case (Cons y ys')
      with split Seq.IH have "matches (Seq (after c r) s) xs"
        by (auto simp: matches_Seq)
      then show ?thesis
        by (simp add: matches_seq matches_alt matches_Alt)
    qed
  qed
next
  case (Star r)
  show ?case
  proof
    assume "matches (after c (Star r)) xs"
    then obtain ys zs where "xs = ys @ zs" "matches r (c # ys)" "matches (Star r) zs"
      using Star.IH by (auto simp: matches_seq matches_Seq)
    then show "matches (Star r) (c # xs)"
      using m_star [of r "c # ys" zs] by simp
  next
    assume "matches (Star r) (c # xs)"
    from matches_Star_Cons [OF this refl refl] Star.IH
    show "matches (after c (Star r)) xs"
      by (auto simp: matches_seq matches_Seq)
  qed
qed (auto simp: matches_Chars matches_alt matches_Alt)

lemma fullmatch_matches: "fullmatch r xs \<longleftrightarrow> matches r xs"
  by (induction xs arbitrary: r) (simp_all add: nullable_matches matches_after)

section \<open>Stripping leading underscores\<close>

lemma lstrip_split:
  "\<exists>pre. s = pre @ lstrip chars s \<and> set pre \<subseteq> set chars"
proof (induction s)
  case Nil
  then show ?case by simp
next
  case (Cons c cs)
  show ?case
  proof (cases "c \<in> set chars")
    case True
    from Cons obtain pre where "cs = pre @ lstrip chars cs" "set pre \<subseteq> set chars" by blast
    with True have "c # cs = (c # pre) @ lstrip chars (c # cs) \<and> set (c # pre) \<subseteq> set chars"
      by simp
    then show ?thesis by blast
  next
    case False
    then have "c # cs = [] @ lstrip chars (c # cs) \<and> set [] \<subseteq> set chars" by simp
    then show ?thesis by blast
  qed
qed

lemma lstrip_head: "lstrip chars s = c # rest \<Longrightarrow> c \<notin> set chars"
  by (induction s) (auto split: if_splits)

lemma lstrip_underscores: "\<exists>k. name = replicate k CHR ''_'' @ lstrip ''_'' name"
proof -
  obtain pre where p: "name = pre @ lstrip ''_'' name" "set pre \<subseteq> set ''_''"
    using lstrip_split by blast
  from p(2) have "pre = replicate (length pre) CHR ''_''"
    by (induction pre) auto
  with p(1) show ?thesis by metis
qed

lemma lstrip_Nil_iff: "lstrip ''_'' name = [] \<longleftrightarrow> set name \<subseteq> {CHR ''_''}"
  by (induction name) auto

section \<open>The classifier\<close>

lemma loop_first:
  "real_case_loop cs name = Inr label \<longleftrightarrow>
     (\<exists>before reg later. cs = before @ (reg, label) # later
        \<and> fullmatch reg (lstrip ''_'' name)
        \<and> (\<forall>(r, l) \<in> set before. \<not> fullmatch r (lstrip ''_'' name)))"
  (is "?L cs \<longleftrightarrow> ?R cs")
proof (induction cs)
  case Nil
  then show ?case by simp
next
  case (Cons a cs)
  obtain reg0 l0 where a: "a = (reg0, l0)" by (cases a)
  show ?case
  proof (cases "fullmatch reg0 (lstrip ''_'' name)")
    case True
    have "?R (a # cs) \<longleftrightarrow> l0 = label"
    proof
      assume "?R (a # cs)"
      then obtain before reg later where d: "a # cs = before @ (reg, label) # later"
        and none: "\<forall>(r, l) \<in> set before. \<not> fullmatch r (lstrip ''_'' name)"
        by blast
      show "l0 = label"
      proof (cases before)
        case Nil
        with d a show ?thesis by simp
      next
        case (Cons b bs)
        with d a none True show ?thesis by auto
      qed
    next
      assume "l0 = label"
      with a True show "?R (a # cs)"
        by (intro exI [of _ "[]"] exI [of _ reg0] exI [of _ cs]) simp
    qed
    with True a show ?thesis by simp
  next
    case False
    have "?R (a # cs) \<longleftrightarrow> ?R cs"
    proof
      assume "?R (a # cs)"
      then obtain before reg later where d: "a # cs = before @ (reg, label) # later"
        and hit: "fullmatch reg (lstrip ''_'' name)"
        and none: "\<forall>(r, l) \<in> set before. \<not> fullmatch r (lstrip ''_'' name)"
        by blast
      show "?R cs"
      proof (cases before)
        case Nil
        with d a hit False show ?thesis by simp
      next
        case (Cons b bs)
        with d none have "cs = bs @ (reg, label) # later"
          "\<forall>(r, l) \<in> set bs. \<not> fullmatch r (lstrip ''_'' name)"
          by auto
        with hit show ?thesis
          by (intro exI [of _ bs] exI [of _ reg] exI [of _ later]) simp
      qed
    next
      assume "?R cs"
      then obtain before reg later where d: "cs = before @ (reg, label) # later"
        and hit: "fullmatch reg (lstrip ''_'' name)"
        and none: "\<forall>(r, l) \<in> set before. \<not> fullmatch r (lstrip ''_'' name)"
        by blast
      from d none False a have "a # cs = (a # before) @ (reg, label) # later"
        "\<forall>(r, l) \<in> set (a # before). \<not> fullmatch r (lstrip ''_'' name)"
        by auto
      with hit show "?R (a # cs)"
        by (intro exI [of _ "a # before"] exI [of _ reg] exI [of _ later]) simp
    qed
    with False a Cons.IH show ?thesis by simp
  qed
qed

lemma loop_fails:
  "real_case_loop cs name = Inl e \<longleftrightarrow>
     (e = ValueError (''Word '' @ name @ '' have no case'')
      \<and> (\<forall>(r, l) \<in> set cs. \<not> fullmatch r (lstrip ''_'' name)))"
  by (induction cs) (auto split: if_splits)

lemma hadoken: "real_case ''__hadoken'' = Inr ''snake_case''"
  by code_simp

text \<open>
  C1. For every identifier, \<open>real_case\<close> works on the identifier without its leading
  underscores: the identifier is some number of underscores followed by the stripped
  string, and the stripped string does not start with an underscore. It returns a label
  exactly when the catalog splits into the entries before, one entry with that label and
  the entries after it, such that the pattern of that entry matches the whole stripped
  string and no pattern of an entry before it does. What the later entries are plays no
  part.
\<close>

theorem real_case_first_full_match:
  "(\<exists>k. name = replicate k CHR ''_'' @ lstrip ''_'' name)
   \<and> \<not> startswith (lstrip ''_'' name) ''_''
   \<and> (real_case name = Inr label \<longleftrightarrow>
        (\<exists>before reg later. CASES = before @ (reg, label) # later
           \<and> matches reg (lstrip ''_'' name)
           \<and> (\<forall>(r, l) \<in> set before. \<not> matches r (lstrip ''_'' name))))"
proof -
  have "\<not> startswith (lstrip ''_'' name) ''_''"
    using lstrip_head [of "''_''" name] by (cases "lstrip ''_'' name") (auto simp: startswith_def)
  then show ?thesis
    using lstrip_underscores [of name] loop_first [of CASES name label]
    by (simp add: real_case_def fullmatch_matches)
qed

theorem real_case_first_full_match_witness:
  "real_case ''__hadoken'' = Inr ''snake_case''
   \<and> (\<exists>before reg later. CASES = before @ (reg, ''snake_case'') # later
         \<and> matches reg ''hadoken''
         \<and> (\<forall>(r, l) \<in> set before. \<not> matches r ''hadoken''))"
  using real_case_first_full_match [of "''__hadoken''" "''snake_case''"]
  by (simp add: hadoken)

lemma fullmatch_Never: "\<not> fullmatch Never s"
  by (induction s) auto

lemma fullmatch_Empty: "fullmatch Empty s \<longleftrightarrow> s = []"
  by (cases s) (auto simp: fullmatch_Never)

lemma loop_label: "real_case_loop cs name = Inr label \<Longrightarrow> label \<in> snd ` set cs"
  by (induction cs) (auto split: if_splits)

lemma loop_append:
  "real_case_loop (cs @ rest) name =
     (case real_case_loop cs name of Inl e \<Rightarrow> real_case_loop rest name | Inr l \<Rightarrow> Inr l)"
  by (induction cs) auto

lemma CASES_last: "CASES = butlast CASES @ [(Empty, ''_'')]"
  by (simp add: CASES_def)

lemma CASES_labels:
  "map snd CASES = [''MixedCase'', ''snake_case'', ''camelCase'', ''Mixed_snake_case'',
     ''UPPER_CASE'', ''Mixed_Snake_Case'', ''snakeCamel_case'', ''changing_CASE'',
     ''Py_CASES'', ''LOWFINAL_CAse'', ''VERSIONv1.1_CASE'', ''_'']"
  by (simp add: CASES_def)

lemma butlast_not_nullable: "list_all (\<lambda>(r, l). \<not> nullable r) (butlast CASES)"
  by code_simp

lemma underscore_not_before: "''_'' \<notin> snd ` set (butlast CASES)"
proof -
  have "list_all (\<lambda>l. l \<noteq> ''_'') (map snd (butlast CASES))" by code_simp
  then show ?thesis by (auto simp: list_all_iff)
qed

lemma real_case_underscore: "real_case name = Inr ''_'' \<longleftrightarrow> set name \<subseteq> {CHR ''_''}"
proof
  assume r: "real_case name = Inr ''_''"
  have "real_case_loop (butlast CASES @ [(Empty, ''_'')]) name = Inr ''_''"
    using r CASES_last by (simp add: real_case_def)
  then have "fullmatch Empty (lstrip ''_'' name)"
    using loop_label [of "butlast CASES" name "''_''"] underscore_not_before
    by (auto simp: loop_append split: sum.splits if_splits)
  then show "set name \<subseteq> {CHR ''_''}"
    by (simp add: fullmatch_Empty lstrip_Nil_iff)
next
  assume "set name \<subseteq> {CHR ''_''}"
  then have e: "lstrip ''_'' name = []" by (simp add: lstrip_Nil_iff)
  have "\<forall>(r, l) \<in> set (butlast CASES). \<not> fullmatch r (lstrip ''_'' name)"
    using butlast_not_nullable by (auto simp: list_all_iff e)
  then have "\<exists>e. real_case_loop (butlast CASES) name = Inl e"
    using loop_fails [of "butlast CASES" name] by simp
  then have "real_case_loop (butlast CASES @ [(Empty, ''_'')]) name = Inr ''_''"
    by (auto simp: loop_append e)
  then show "real_case name = Inr ''_''"
    using CASES_last by (simp add: real_case_def)
qed

lemma aB_Cd: "real_case ''aB_Cd'' = Inl (ValueError ''Word aB_Cd have no case'')"
  by code_simp

text \<open>
  C2. The catalog has no entry that matches every string. Its last entry is the empty
  pattern, which matches the stripped identifier exactly when the identifier consists of
  underscores only (the empty identifier included). \<open>real_case\<close> returns a label exactly
  when some entry of the catalog matches the whole stripped identifier; so it returns
  (the label \<open>_\<close>) for every identifier made of underscores only, and it raises for an
  identifier that no pattern matches.
\<close>

theorem real_case_returns_iff_some_match:
  "((\<exists>label. real_case name = Inr label) \<longleftrightarrow>
      (\<exists>(r, l) \<in> set CASES. matches r (lstrip ''_'' name)))
   \<and> (matches (fst (last CASES)) (lstrip ''_'' name) \<longleftrightarrow> set name \<subseteq> {CHR ''_''})
   \<and> (set name \<subseteq> {CHR ''_''} \<longrightarrow> real_case name = Inr ''_'')"
proof -
  have "(\<exists>label. real_case name = Inr label) \<longleftrightarrow> \<not> (\<exists>e. real_case name = Inl e)"
    by (cases "real_case name") auto
  also have "\<dots> \<longleftrightarrow> (\<exists>(r, l) \<in> set CASES. matches r (lstrip ''_'' name))"
    using loop_fails [of CASES name] by (auto simp: real_case_def fullmatch_matches)
  finally have 1: "(\<exists>label. real_case name = Inr label) \<longleftrightarrow>
      (\<exists>(r, l) \<in> set CASES. matches r (lstrip ''_'' name))" .
  have "fst (last CASES) = Empty" by (simp add: CASES_def)
  then have 2: "matches (fst (last CASES)) (lstrip ''_'' name) \<longleftrightarrow> set name \<subseteq> {CHR ''_''}"
    by (simp add: lstrip_Nil_iff)
  from 1 2 real_case_underscore [of name] show ?thesis by blast
qed

theorem real_case_returns_iff_some_match_witness:
  "set ''___'' \<subseteq> {CHR ''_''} \<and> real_case ''___'' = Inr ''_''
   \<and> matches (fst (last CASES)) (lstrip ''_'' ''___'')"
  using real_case_returns_iff_some_match [of "''___''"] by simp

text \<open>
  The identifier \<open>aB_Cd\<close> is matched by no pattern of the catalog: \<open>real_case\<close> raises.
\<close>

theorem fallback_not_universal_counterexample:
  "real_case ''aB_Cd'' = Inl (ValueError ''Word aB_Cd have no case'')"
  by code_simp

text \<open>
  C3. \<open>real_case\<close> raises exactly when no pattern of the catalog matches the whole
  stripped identifier, and the \<open>ValueError\<close> it raises carries the identifier as it was
  given. The last entry of the catalog has the label \<open>_\<close> and its pattern matches the
  empty string only, so \<open>real_case\<close> returns \<open>_\<close> exactly for the identifiers made of
  underscores only (the empty one included). For the identifier \<open>aB_Cd\<close> it raises.
\<close>

theorem real_case_raises_iff_no_match:
  "(real_case name = Inl e \<longleftrightarrow>
      (e = ValueError (''Word '' @ name @ '' have no case'')
       \<and> (\<forall>(r, l) \<in> set CASES. \<not> matches r (lstrip ''_'' name))))
   \<and> (matches (fst (last CASES)) s \<longleftrightarrow> s = [])
   \<and> snd (last CASES) = ''_''
   \<and> (real_case name = Inr ''_'' \<longleftrightarrow> set name \<subseteq> {CHR ''_''})
   \<and> real_case ''aB_Cd'' = Inl (ValueError ''Word aB_Cd have no case'')"
proof -
  have "fst (last CASES) = Empty" "snd (last CASES) = ''_''" by (simp_all add: CASES_def)
  then show ?thesis
    using loop_fails [of CASES name e] real_case_underscore [of name] aB_Cd
    by (simp add: real_case_def fullmatch_matches)
qed

theorem real_case_raises_iff_no_match_witness:
  "real_case ''a-b'' = Inl (ValueError ''Word a-b have no case'')
   \<and> \<not> (\<exists>(r, l) \<in> set CASES. matches r ''a-b'')"
proof -
  have "real_case ''a-b'' = Inl (ValueError ''Word a-b have no case'')" by code_simp
  then show ?thesis
    using real_case_raises_iff_no_match [of "''a-b''" "ValueError ''Word a-b have no case''"]
    by (simp add: split_def)
qed

section \<open>The order of the catalog\<close>



section \<open>The classifier on the names of the test\<close>

text \<open>
  C5. The labels of the catalog are the twelve listed, in this order, and every one of
  them, classified as an identifier, gives that same label (the first loop of
  \<open>test_real_case\<close>).
\<close>

theorem labels_classify_as_themselves:
  "map snd CASES = [''MixedCase'', ''snake_case'', ''camelCase'', ''Mixed_snake_case'',
     ''UPPER_CASE'', ''Mixed_Snake_Case'', ''snakeCamel_case'', ''changing_CASE'',
     ''Py_CASES'', ''LOWFINAL_CAse'', ''VERSIONv1.1_CASE'', ''_'']
   \<and> (\<forall>L \<in> set (map snd CASES). real_case L = Inr L)"
proof -
  have "list_all (\<lambda>L. real_case L = Inr L) (map snd CASES)" by code_simp
  then have "\<forall>L \<in> set (map snd CASES). real_case L = Inr L"
    by (simp only: list_all_iff)
  with CASES_labels show ?thesis by blast
qed

theorem labels_classify_as_themselves_witness:
  "''VERSIONv1.1_CASE'' \<in> set (map snd CASES)
   \<and> real_case ''VERSIONv1.1_CASE'' = Inr ''VERSIONv1.1_CASE''"
proof -
  have m: "''VERSIONv1.1_CASE'' \<in> set (map snd CASES)" by (simp add: CASES_labels)
  with labels_classify_as_themselves show ?thesis by blast
qed

text \<open>
  C6. \<open>real_case\<close> gives \<open>snake_case\<close> for \<open>snake_case_two_more\<close>, \<open>UPPER_CASE\<close> for
  \<open>UPPER_CASE_TWO_MORE\<close>, \<open>camelCase\<close> for \<open>camelCaseTwoMore\<close>, \<open>MixedCase\<close> for
  \<open>MixedCaseTwoMore\<close>, \<open>snake_case\<close> for \<open>snake_42case\<close> and \<open>snake_case\<close> for
  \<open>__hadoken\<close>. For \<open>__hadoken\<close> the leading underscores are stripped before matching:
  the stripped name is \<open>hadoken\<close>, and on \<open>__hadoken\<close> the loop tests any pattern, whatever
  it is, against \<open>hadoken\<close>.
\<close>

theorem real_case_examples:
  "real_case ''snake_case_two_more'' = Inr ''snake_case''
   \<and> real_case ''UPPER_CASE_TWO_MORE'' = Inr ''UPPER_CASE''
   \<and> real_case ''camelCaseTwoMore'' = Inr ''camelCase''
   \<and> real_case ''MixedCaseTwoMore'' = Inr ''MixedCase''
   \<and> real_case ''snake_42case'' = Inr ''snake_case''
   \<and> real_case ''__hadoken'' = Inr ''snake_case''
   \<and> lstrip ''_'' ''__hadoken'' = ''hadoken''
   \<and> real_case_loop ((reg, label) # rest) ''__hadoken'' =
        (if matches reg ''hadoken'' then Inr label else real_case_loop rest ''__hadoken'')"
proof -
  have "real_case ''snake_case_two_more'' = Inr ''snake_case''
   \<and> real_case ''UPPER_CASE_TWO_MORE'' = Inr ''UPPER_CASE''
   \<and> real_case ''camelCaseTwoMore'' = Inr ''camelCase''
   \<and> real_case ''MixedCaseTwoMore'' = Inr ''MixedCase''
   \<and> real_case ''snake_42case'' = Inr ''snake_case''
   \<and> real_case ''__hadoken'' = Inr ''snake_case''"
    by code_simp
  moreover have "lstrip ''_'' ''__hadoken'' = ''hadoken''" by simp
  ultimately show ?thesis by (simp add: fullmatch_matches)
qed

lemma loop_only_label:
  "\<forall>(reg, l) \<in> set cs. fullmatch reg (lstrip ''_'' name) \<longrightarrow> l = label \<Longrightarrow>
   \<exists>(reg, l) \<in> set cs. fullmatch reg (lstrip ''_'' name) \<Longrightarrow>
   real_case_loop cs name = Inr label"
proof (induction cs)
  case Nil
  then show ?case by simp
next
  case (Cons a cs)
  obtain reg0 l0 where a: "a = (reg0, l0)" by (cases a)
  show ?case
  proof (cases "fullmatch reg0 (lstrip ''_'' name)")
    case True
    with Cons.prems(1) a show ?thesis by simp
  next
    case False
    with Cons.prems a have "\<forall>(reg, l) \<in> set cs. fullmatch reg (lstrip ''_'' name) \<longrightarrow> l = label"
      "\<exists>(reg, l) \<in> set cs. fullmatch reg (lstrip ''_'' name)"
      by simp_all
    with Cons.IH False a show ?thesis by simp
  qed
qed

lemma reordered:
  assumes "matching_labels name = [label]" and "set cs = set CASES"
  shows "real_case_loop cs name = Inr label"
proof -
  define hits where "hits = filter (\<lambda>(reg, case'). fullmatch reg (lstrip ''_'' name)) CASES"
  have m: "map snd hits = [label]"
    using assms(1) by (simp add: matching_labels_def hits_def)
  then obtain reg0 where h: "hits = [(reg0, label)]"
    by (cases hits) auto
  have mem: "(reg, l) \<in> set hits \<longleftrightarrow> (reg, l) \<in> set cs \<and> fullmatch reg (lstrip ''_'' name)"
    for reg l
    by (simp add: hits_def assms(2))
  have "\<forall>(reg, l) \<in> set cs. fullmatch reg (lstrip ''_'' name) \<longrightarrow> l = label"
  proof (intro ballI, clarify)
    fix reg l assume "(reg, l) \<in> set cs" "fullmatch reg (lstrip ''_'' name)"
    then have "(reg, l) \<in> set hits" by (simp add: mem)
    with h show "l = label" by simp
  qed
  moreover have "(reg0, label) \<in> set cs \<and> fullmatch reg0 (lstrip ''_'' name)"
    using mem [of reg0 label] h by simp
  then have "\<exists>(reg, l) \<in> set cs. fullmatch reg (lstrip ''_'' name)" by blast
  ultimately show ?thesis by (rule loop_only_label)
qed

lemma one_match:
  "matching_labels ''barry_as_FLUFL'' = [''changing_CASE'']"
  "matching_labels ''this_isAtest'' = [''snakeCamel_case'']"
  "matching_labels ''this_isAnother_one'' = [''snakeCamel_case'']"
  by code_simp+

text \<open>
  C7. \<open>real_case\<close> gives \<open>changing_CASE\<close> for \<open>barry_as_FLUFL\<close>, and \<open>snakeCamel_case\<close>
  for \<open>this_isAtest\<close> and for \<open>this_isAnother_one\<close>. Each of the three names is matched
  by exactly one pattern of the catalog, so the loop gives the same label for every
  list with the same entries as the catalog, in whatever order.
\<close>

theorem real_case_unambiguous_examples:
  "real_case ''barry_as_FLUFL'' = Inr ''changing_CASE''
   \<and> real_case ''this_isAtest'' = Inr ''snakeCamel_case''
   \<and> real_case ''this_isAnother_one'' = Inr ''snakeCamel_case''
   \<and> matching_labels ''barry_as_FLUFL'' = [''changing_CASE'']
   \<and> matching_labels ''this_isAtest'' = [''snakeCamel_case'']
   \<and> matching_labels ''this_isAnother_one'' = [''snakeCamel_case'']
   \<and> (set cs = set CASES \<longrightarrow>
        real_case_loop cs ''barry_as_FLUFL'' = Inr ''changing_CASE''
        \<and> real_case_loop cs ''this_isAtest'' = Inr ''snakeCamel_case''
        \<and> real_case_loop cs ''this_isAnother_one'' = Inr ''snakeCamel_case'')"
  using one_match reordered [OF one_match(1), of cs] reordered [OF one_match(2), of cs]
    reordered [OF one_match(3), of cs] reordered [OF one_match(1), of CASES]
    reordered [OF one_match(2), of CASES] reordered [OF one_match(3), of CASES]
  by (simp add: real_case_def)

theorem real_case_unambiguous_examples_witness:
  "set (rev CASES) = set CASES
   \<and> real_case_loop (rev CASES) ''barry_as_FLUFL'' = Inr ''changing_CASE''
   \<and> real_case_loop (rev CASES) ''this_isAtest'' = Inr ''snakeCamel_case''
   \<and> real_case_loop (rev CASES) ''this_isAnother_one'' = Inr ''snakeCamel_case''"
  using real_case_unambiguous_examples [of "rev CASES"] by simp

text \<open>
  None of the three names is ambiguous: for each of them the catalog has one matching
  entry and no other, so no order of precedence is involved.
\<close>

theorem only_one_entry_matches_counterexample:
  "matching_labels ''barry_as_FLUFL'' = [''changing_CASE'']
   \<and> matching_labels ''this_isAtest'' = [''snakeCamel_case'']
   \<and> matching_labels ''this_isAnother_one'' = [''snakeCamel_case'']"
  by code_simp

section \<open>The expected style\<close>

lemma expected_loop_fails:
  "(\<forall>(p, l) \<in> set tbl. \<not> p obj) \<Longrightarrow>
     expected_case_loop tbl obj lib_name =
       Inl (ValueError (''Object '' @ [CHR 0x27] @ str_of obj @ [CHR 0x27] @ '' of type ''
          @ str_of (ClassObj (type_of obj)) @ '' found in lib '' @ [CHR 0x27] @ lib_name
          @ [CHR 0x27] @ '' is not handled by expected_case function''))"
  by (induction tbl) auto

lemma expected_loop_returns:
  "(\<exists>(p, l) \<in> set tbl. p obj) \<Longrightarrow> \<exists>label. expected_case_loop tbl obj lib_name = Inr label"
  by (induction tbl) fastforce+

text \<open>
  C8. \<open>expected_case\<close> tests its predicates in the order of \<open>type_to_case\<close> and returns
  the label of the first one that holds: \<open>MixedCase\<close> for a class, else \<open>snake_case\<close> for a
  function in the sense of \<open>inspect.isfunction\<close> (an instance of the type \<open>function\<close>),
  else \<open>snake_case\<close> for a module, else \<open>UPPER_CASE\<close> for an instance of \<open>str\<close>, \<open>bytes\<close>,
  \<open>int\<close>, \<open>float\<close>, \<open>list\<close>, \<open>tuple\<close>, \<open>set\<close>, \<open>frozenset\<close> or \<open>dict\<close>, else
  \<open>UPPER_CASE\<close> for an object whose type is a class. When no predicate of the table
  holds of the object, the loop ends in a \<open>ValueError\<close> whose message carries the object,
  its type and the library name; this is stated for any table of predicates.
\<close>

theorem expected_case_priority:
  "expected_case obj lib_name =
     (if isclass obj then Inr ''MixedCase''
      else if isfunction obj then Inr ''snake_case''
      else if ismodule obj then Inr ''snake_case''
      else if isinstance obj [builtin ''str'', builtin ''bytes'', builtin ''int'',
                builtin ''float'', builtin ''list'', builtin ''tuple'', builtin ''set'',
                builtin ''frozenset'', builtin ''dict'']
        then Inr ''UPPER_CASE''
      else if isclass (ClassObj (type_of obj)) then Inr ''UPPER_CASE''
      else expected_case_loop [] obj lib_name)
   \<and> ((\<forall>(p, l) \<in> set tbl. \<not> p obj) \<longrightarrow>
        expected_case_loop tbl obj lib_name =
          Inl (ValueError (''Object '' @ [CHR 0x27] @ str_of obj @ [CHR 0x27] @ '' of type ''
             @ str_of (ClassObj (type_of obj)) @ '' found in lib '' @ [CHR 0x27] @ lib_name
             @ [CHR 0x27] @ '' is not handled by expected_case function'')))"
proof -
  have "expected_case obj lib_name =
     (if isclass obj then Inr ''MixedCase''
      else if isfunction obj then Inr ''snake_case''
      else if ismodule obj then Inr ''snake_case''
      else if isinstance obj [builtin ''str'', builtin ''bytes'', builtin ''int'',
                builtin ''float'', builtin ''list'', builtin ''tuple'', builtin ''set'',
                builtin ''frozenset'', builtin ''dict'']
        then Inr ''UPPER_CASE''
      else if isclass (ClassObj (type_of obj)) then Inr ''UPPER_CASE''
      else expected_case_loop [] obj lib_name)"
    unfolding expected_case_def type_to_case_def expected_case_loop.simps by simp
  then show ?thesis using expected_loop_fails [of tbl obj lib_name] by blast
qed

theorem expected_case_priority_witness:
  "expected_case (ClassObj (PyClass ''csv.Dialect'' [object_cls] None)) ''csv''
     = Inr ''MixedCase''
   \<and> expected_case (Instance (builtin ''function'') ''<function reader>'') ''csv''
     = Inr ''snake_case''
   \<and> expected_case (Instance (PyClass ''bool'' [builtin ''int''] None) ''True'') ''builtins''
     = Inr ''UPPER_CASE''
   \<and> expected_case_loop [(isclass, ''MixedCase''), (isfunction, ''snake_case'')]
        (Instance (builtin ''int'') ''42'') ''csv''
     = Inl (ValueError (''Object '' @ [CHR 0x27] @ ''42'' @ [CHR 0x27]
          @ '' of type <class '' @ [CHR 0x27] @ ''int'' @ [CHR 0x27] @ ''> found in lib ''
          @ [CHR 0x27] @ ''csv'' @ [CHR 0x27] @ '' is not handled by expected_case function''))"
proof -
  have h: "\<forall>(p, l) \<in> set [(isclass, ''MixedCase''), (isfunction, ''snake_case'')].
      \<not> p (Instance (builtin ''int'') ''42'')"
    by (simp add: isfunction_def isinstance_def builtin_def object_cls_def)
  have "expected_case (ClassObj (PyClass ''csv.Dialect'' [object_cls] None)) ''csv''
     = Inr ''MixedCase''"
    using expected_case_priority [of "ClassObj (PyClass ''csv.Dialect'' [object_cls] None)" "''csv''" "[]"]
    by simp
  moreover have "expected_case (Instance (builtin ''function'') ''<function reader>'') ''csv''
     = Inr ''snake_case''"
    using expected_case_priority [of "Instance (builtin ''function'') ''<function reader>''" "''csv''" "[]"]
    by (simp add: isfunction_def isinstance_def builtin_def object_cls_def)
  moreover have "expected_case (Instance (PyClass ''bool'' [builtin ''int''] None) ''True'') ''builtins''
     = Inr ''UPPER_CASE''"
    using expected_case_priority [of "Instance (PyClass ''bool'' [builtin ''int''] None) ''True''" "''builtins''" "[]"]
    by (simp add: isfunction_def ismodule_def isinstance_def builtin_def object_cls_def)
  moreover have "expected_case_loop [(isclass, ''MixedCase''), (isfunction, ''snake_case'')]
        (Instance (builtin ''int'') ''42'') ''csv''
     = Inl (ValueError (''Object '' @ [CHR 0x27] @ ''42'' @ [CHR 0x27]
          @ '' of type <class '' @ [CHR 0x27] @ ''int'' @ [CHR 0x27] @ ''> found in lib ''
          @ [CHR 0x27] @ ''csv'' @ [CHR 0x27] @ '' is not handled by expected_case function''))"
    using h expected_case_priority [of "Instance (builtin ''int'') ''42''" "''csv''"
        "[(isclass, ''MixedCase''), (isfunction, ''snake_case'')]"]
    by (simp add: builtin_def)
  ultimately show ?thesis by simp
qed

text \<open>
  The built-in function \<open>len\<close> can be called, but its type is
  \<open>builtin_function_or_method\<close>, not \<open>function\<close>: \<open>inspect.isfunction\<close> does not hold of
  it, and \<open>expected_case\<close> gives \<open>UPPER_CASE\<close> for it, not \<open>snake_case\<close>.
\<close>

theorem builtin_function_not_snake_case_counterexample:
  "\<not> isfunction (Instance (builtin ''builtin_function_or_method'') ''<built-in function len>'')
   \<and> expected_case (Instance (builtin ''builtin_function_or_method'')
         ''<built-in function len>'') [] = Inr ''UPPER_CASE''"
  by (simp add: expected_case_def type_to_case_def isfunction_def ismodule_def
      isinstance_def builtin_def object_cls_def)

text \<open>
  C10. The last predicate of \<open>type_to_case\<close> holds of every object, so \<open>expected_case\<close>
  returns a label for every object and library name and never raises.
\<close>

theorem expected_case_never_fails:
  "fst (last type_to_case) obj
   \<and> (\<exists>label. expected_case obj lib_name = Inr label)
   \<and> (\<forall>e. expected_case obj lib_name \<noteq> Inl e)"
proof -
  have l: "fst (last type_to_case) obj" by (simp add: type_to_case_def)
  have "last type_to_case \<in> set type_to_case" by (simp add: type_to_case_def)
  with l have "\<exists>(p, l) \<in> set type_to_case. p obj"
    by (metis (mono_tags, lifting) case_prod_beta)
  then obtain label where "expected_case obj lib_name = Inr label"
    using expected_loop_returns [of type_to_case obj lib_name] by (auto simp: expected_case_def)
  then show ?thesis using l by simp
qed

section \<open>The two tables after a scan\<close>

lemma lookup3_update_at:
  "lookup3 (update_at t d lib exp real f) l e r =
     (if l = lib \<and> e = exp \<and> r = real
      then Some (f (or_default d (lookup3 t lib exp real)))
      else lookup3 t l e r)"
  by (auto simp: lookup3_def update_at_def or_default_def Let_def split: option.splits)

lemma recorded_step:
  assumes "recorded st xs" and "record_symbol st lib entry = Inr st'"
  shows "recorded st' (xs @ [(lib, fst entry, snd entry)])"
proof -
  obtain obj name where entry: "entry = (obj, name)" by (cases entry)
  from assms(2) obtain exp real where
    e: "expected_case obj [] = Inr exp" and r: "real_case name = Inr real"
    and a: "acc st' = update_at (acc st) {} lib exp real (insert (type_of obj, name))"
    and c: "counter st' = update_at (counter st) 0 lib exp real (\<lambda>n. n + 1)"
    by (auto simp: record_symbol_def add_to_acc_def add_to_counter_def entry
        split: sum.splits)
  have here: "at_path l e' r' (lib, obj, name) \<longleftrightarrow> l = lib \<and> e' = exp \<and> r' = real" for l e' r'
    using e r by auto
  show ?thesis
    unfolding recorded_def
  proof (intro conjI allI)
    fix l e' r'
    show "lookup3 (counter st') l e' r' =
        (if filter (at_path l e' r') (xs @ [(lib, fst entry, snd entry)]) = [] then None
         else Some (int (length (filter (at_path l e' r') (xs @ [(lib, fst entry, snd entry)])))))"
      using assms(1) unfolding recorded_def c lookup3_update_at entry
      by (simp add: here or_default_def del: at_path.simps)
  next
    fix l e' r'
    show "lookup3 (acc st') l e' r' =
        (if filter (at_path l e' r') (xs @ [(lib, fst entry, snd entry)]) = [] then None
         else Some (set (map member_of (filter (at_path l e' r') (xs @ [(lib, fst entry, snd entry)])))))"
      using assms(1) unfolding recorded_def a lookup3_update_at entry
      by (auto simp: here or_default_def filter_empty_conv simp del: at_path.simps)
  next
    show "\<forall>x\<in>set (xs @ [(lib, fst entry, snd entry)]). \<exists>r. real_case (snd (snd x)) = Inr r"
      using assms(1) r unfolding recorded_def entry by auto
  qed
qed

lemma recorded_scan_lib:
  "recorded st xs \<Longrightarrow> scan_lib st lib entries = Inr st' \<Longrightarrow>
     recorded st' (xs @ map (\<lambda>entry. (lib, fst entry, snd entry)) entries)"
proof (induction entries arbitrary: st xs)
  case Nil
  then show ?case by simp
next
  case (Cons entry entries)
  from Cons.prems(2) obtain st1 where s1: "record_symbol st lib entry = Inr st1"
    and s2: "scan_lib st1 lib entries = Inr st'"
    by (auto split: sum.splits)
  from Cons.IH [OF recorded_step [OF Cons.prems(1) s1] s2]
  show ?case by simp
qed

lemma recorded_scan_libs:
  "recorded st xs \<Longrightarrow> scan_libs import_module st libs = Inr st' \<Longrightarrow>
     recorded st' (xs @ observations import_module libs)"
proof (induction libs arbitrary: st xs)
  case Nil
  then show ?case by (simp add: observations_def)
next
  case (Cons lib libs)
  from Cons.prems(2) obtain st1 where
    s1: "scan_lib st lib (objects_in_lib import_module lib) = Inr st1"
    and s2: "scan_libs import_module st1 libs = Inr st'"
    by (auto split: sum.splits)
  from Cons.IH [OF recorded_scan_lib [OF Cons.prems(1) s1] s2]
  show ?case by (simp add: observations_def)
qed

lemma recorded_main:
  "main import_module libs = Inr st \<Longrightarrow> recorded st (observations import_module libs)"
  using recorded_scan_libs [of "\<lparr>acc = Map.empty, counter = Map.empty\<rparr>" "[]" import_module libs st]
  by (simp add: main_def recorded_def lookup3_def)

lemma at_path_expected_in:
  "at_path lib exp real x \<longleftrightarrow> expected_in lib exp x \<and> real_case (snd (snd x)) = Inr real"
  by (cases x) auto

lemma sum_at_path:
  assumes "finite R"
    and "\<forall>x \<in> set xs. expected_in lib exp x \<longrightarrow> (\<exists>r \<in> R. real_case (snd (snd x)) = Inr r)"
  shows "(\<Sum>r \<in> R. int (length (filter (at_path lib exp r) xs)))
           = int (length (filter (expected_in lib exp) xs))"
  using assms(2)
proof (induction xs)
  case Nil
  then show ?case by simp
next
  case (Cons x xs)
  then have IH: "(\<Sum>r \<in> R. int (length (filter (at_path lib exp r) xs)))
           = int (length (filter (expected_in lib exp) xs))"
    by simp
  show ?case
  proof (cases "expected_in lib exp x")
    case True
    with Cons.prems obtain r0 where r0: "r0 \<in> R" "real_case (snd (snd x)) = Inr r0"
      by auto
    have "int (length (filter (at_path lib exp r) (x # xs)))
        = (if r = r0 then 1 else 0) + int (length (filter (at_path lib exp r) xs))" for r
      using True r0(2) by (auto simp: at_path_expected_in)
    then have "(\<Sum>r \<in> R. int (length (filter (at_path lib exp r) (x # xs))))
        = (\<Sum>r \<in> R. (if r = r0 then 1 else 0))
          + (\<Sum>r \<in> R. int (length (filter (at_path lib exp r) xs)))"
      by (simp add: sum.distrib)
    also have "(\<Sum>r \<in> R. (if r = r0 then 1 else 0)) = (1::int)"
      using assms(1) r0(1) by simp
    finally show ?thesis using True IH by simp
  next
    case False
    then have "filter (at_path lib exp r) (x # xs) = filter (at_path lib exp r) xs" for r
      by (simp add: at_path_expected_in)
    with False IH show ?thesis by simp
  qed
qed

lemma recorded_total:
  assumes "recorded st xs"
  shows "counter_total (counter st) lib exp = int (length (filter (expected_in lib exp) xs))"
proof -
  have cnt: "lookup3 (counter st) lib exp r =
        (if filter (at_path lib exp r) xs = [] then None
         else Some (int (length (filter (at_path lib exp r) xs))))" for r
    using assms by (simp add: recorded_def)
  have ok: "\<forall>x \<in> set xs. \<exists>r. real_case (snd (snd x)) = Inr r"
    using assms by (simp add: recorded_def)
  show ?thesis
  proof (cases "\<exists>by_lib by_exp. counter st lib = Some by_lib \<and> by_lib exp = Some by_exp")
    case True
    then obtain by_lib by_exp where
      m: "counter st lib = Some by_lib" "by_lib exp = Some by_exp" by blast
    then have look: "lookup3 (counter st) lib exp r = by_exp r" for r
      by (simp add: lookup3_def)
    define R where "R = dom by_exp"
    have R: "R = {r. filter (at_path lib exp r) xs \<noteq> []}"
      unfolding R_def dom_def using cnt look by (auto split: if_splits)
    have "R \<subseteq> (\<lambda>x. case real_case (snd (snd x)) of Inr r \<Rightarrow> r | Inl e \<Rightarrow> []) ` set xs"
      unfolding R by (force simp: filter_empty_conv at_path_expected_in)
    then have fin: "finite R" by (rule finite_subset) simp
    have cover: "\<forall>x \<in> set xs. expected_in lib exp x \<longrightarrow> (\<exists>r \<in> R. real_case (snd (snd x)) = Inr r)"
    proof (intro ballI impI)
      fix x assume x: "x \<in> set xs" "expected_in lib exp x"
      with ok obtain r where r: "real_case (snd (snd x)) = Inr r" by blast
      with x have "r \<in> R" unfolding R by (auto simp: filter_empty_conv at_path_expected_in)
      with r show "\<exists>r \<in> R. real_case (snd (snd x)) = Inr r" by blast
    qed
    have "the (by_exp r) = int (length (filter (at_path lib exp r) xs))" if "r \<in> R" for r
      using that cnt [of r] look [of r] unfolding R by simp
    then have "(\<Sum>r \<in> R. the (by_exp r)) = (\<Sum>r \<in> R. int (length (filter (at_path lib exp r) xs)))"
      by simp
    with sum_at_path [OF fin cover] m show ?thesis
      by (simp add: counter_total_def R_def)
  next
    case False
    then have z: "counter_total (counter st) lib exp = 0"
      by (auto simp: counter_total_def split: option.splits)
    from False have none: "lookup3 (counter st) lib exp r = None" for r
      by (auto simp: lookup3_def split: option.splits)
    have "filter (expected_in lib exp) xs = []"
    proof (rule ccontr)
      assume "filter (expected_in lib exp) xs \<noteq> []"
      then obtain x where x: "x \<in> set xs" "expected_in lib exp x"
        by (auto simp: filter_empty_conv)
      with ok obtain r where "real_case (snd (snd x)) = Inr r" by blast
      with x have "filter (at_path lib exp r) xs \<noteq> []"
        by (auto simp: filter_empty_conv at_path_expected_in)
      with cnt [of r] none [of r] show False by simp
    qed
    with z show ?thesis by simp
  qed
qed

lemma record_symbol_returns:
  "real_case (snd entry) = Inr r \<Longrightarrow> \<exists>st'. record_symbol st lib entry = Inr st'"
  using expected_loop_returns [of type_to_case "fst entry" "[]"]
  by (auto simp: record_symbol_def add_to_acc_def add_to_counter_def expected_case_def
      type_to_case_def split: sum.splits)

lemma scan_lib_returns:
  "\<forall>entry \<in> set entries. \<exists>r. real_case (snd entry) = Inr r \<Longrightarrow>
     \<exists>st'. scan_lib st lib entries = Inr st'"
proof (induction entries arbitrary: st)
  case Nil
  then show ?case by simp
next
  case (Cons entry entries)
  then obtain r where "real_case (snd entry) = Inr r" by auto
  then obtain st1 where "record_symbol st lib entry = Inr st1"
    using record_symbol_returns by blast
  with Cons show ?case by simp
qed

lemma scan_libs_returns:
  "\<forall>x \<in> set (observations import_module libs). \<exists>r. real_case (snd (snd x)) = Inr r \<Longrightarrow>
     \<exists>st'. scan_libs import_module st libs = Inr st'"
proof (induction libs arbitrary: st)
  case Nil
  then show ?case by simp
next
  case (Cons lib libs)
  have "\<exists>r. real_case (snd entry) = Inr r"
    if "entry \<in> set (objects_in_lib import_module lib)" for entry
  proof -
    from that have "(lib, fst entry, snd entry) \<in> set (observations import_module (lib # libs))"
      by (simp add: observations_def)
    with Cons.prems show ?thesis by fastforce
  qed
  then have "\<forall>entry \<in> set (objects_in_lib import_module lib). \<exists>r. real_case (snd entry) = Inr r"
    by blast
  then obtain st1 where "scan_lib st lib (objects_in_lib import_module lib) = Inr st1"
    using scan_lib_returns by blast
  moreover from Cons.prems
  have "\<forall>x \<in> set (observations import_module libs). \<exists>r. real_case (snd (snd x)) = Inr r"
    by (auto simp: observations_def)
  ultimately show ?case using Cons.IH [of st1] by simp
qed

lemma main_returns:
  "\<forall>x \<in> set (observations import_module libs). \<exists>r. real_case (snd (snd x)) = Inr r \<Longrightarrow>
     \<exists>st. main import_module libs = Inr st"
  unfolding main_def by (rule scan_libs_returns)

lemma example_observations:
  "observations example_import [''csv'', ''nolib'', ''csv''] =
     [(''csv'', Instance (builtin ''function'') ''<function reader>'', ''reader''),
      (''csv'', ClassObj (PyClass ''csv.Dialect'' [object_cls] None), ''Dialect''),
      (''csv'', Instance (builtin ''int'') ''1'', ''QUOTE_ALL''),
      (''csv'', Instance (builtin ''function'') ''<function reader>'', ''reader''),
      (''csv'', ClassObj (PyClass ''csv.Dialect'' [object_cls] None), ''Dialect''),
      (''csv'', Instance (builtin ''int'') ''1'', ''QUOTE_ALL'')]"
  by (simp add: observations_def objects_in_lib_def example_import_def startswith_def)

lemma example_classified:
  "real_case ''reader'' = Inr ''snake_case''" "real_case ''Dialect'' = Inr ''MixedCase''"
  "real_case ''QUOTE_ALL'' = Inr ''UPPER_CASE''"
  by code_simp+

lemma example_expected:
  "expected_case (Instance (builtin ''function'') ''<function reader>'') [] = Inr ''snake_case''"
  "expected_case (ClassObj (PyClass ''csv.Dialect'' [object_cls] None)) [] = Inr ''MixedCase''"
  "expected_case (Instance (builtin ''int'') ''1'') [] = Inr ''UPPER_CASE''"
  by (simp_all add: expected_case_def type_to_case_def isfunction_def ismodule_def
      isinstance_def builtin_def object_cls_def)

text \<open>
  C9. When the scan of the main program ends without an exception, then for every
  library and expected style the sum of the counters over the observed styles is the
  number of observations of that library with that expected style. A key path is present
  in the membership table exactly when it is present in the counter table, and exactly
  when some observation has that path. Where it is present, the membership set is the
  set of the (type, name) pairs of the observations with that path and the counter is
  their number; so the size of the set is at most the counter, and equal to it exactly
  when no two of these observations gave the same (type, name) pair. The scan ends
  without an exception whenever every observed name has a style (\<open>main_returns\<close>).
\<close>

theorem aggregation_invariant:
  assumes "main import_module libs = Inr st"
  shows "counter_total (counter st) lib exp
           = int (length (filter (expected_in lib exp) (observations import_module libs)))
     \<and> ((lookup3 (acc st) lib exp real = None) = (lookup3 (counter st) lib exp real = None))
     \<and> ((lookup3 (counter st) lib exp real = None)
           = (filter (at_path lib exp real) (observations import_module libs) = []))
     \<and> (\<forall>S n. lookup3 (acc st) lib exp real = Some S
             \<and> lookup3 (counter st) lib exp real = Some n \<longrightarrow>
           S = set (map member_of (filter (at_path lib exp real) (observations import_module libs)))
           \<and> n = int (length (filter (at_path lib exp real) (observations import_module libs)))
           \<and> int (card S) \<le> n
           \<and> (int (card S) = n \<longleftrightarrow>
                distinct (map member_of
                  (filter (at_path lib exp real) (observations import_module libs)))))"
proof -
  define xs where "xs = observations import_module libs"
  define ys where "ys = map member_of (filter (at_path lib exp real) xs)"
  have rec: "recorded st xs"
    unfolding xs_def using assms by (rule recorded_main)
  have c: "lookup3 (counter st) lib exp real =
        (if filter (at_path lib exp real) xs = [] then None else Some (int (length ys)))"
    using rec by (simp add: recorded_def ys_def)
  have a: "lookup3 (acc st) lib exp real =
        (if filter (at_path lib exp real) xs = [] then None else Some (set ys))"
    using rec by (simp add: recorded_def ys_def)
  have card: "int (card (set ys)) \<le> int (length ys)"
    "int (card (set ys)) = int (length ys) \<longleftrightarrow> distinct ys"
    using card_length [of ys] card_distinct [of ys] distinct_card [of ys] by auto
  have l: "length ys = length (filter (at_path lib exp real) xs)"
    by (simp add: ys_def)
  show ?thesis
    unfolding xs_def [symmetric] ys_def [symmetric]
    using recorded_total [OF rec, of lib exp] a c card l
    by (auto split: if_splits)
qed

theorem aggregation_invariant_witness:
  "\<exists>st. main example_import [''csv'', ''nolib'', ''csv''] = Inr st
     \<and> counter_total (counter st) ''csv'' ''snake_case'' = 2
     \<and> lookup3 (counter st) ''csv'' ''snake_case'' ''snake_case'' = Some 2
     \<and> lookup3 (acc st) ''csv'' ''snake_case'' ''snake_case''
         = Some {(builtin ''function'', ''reader'')}
     \<and> lookup3 (counter st) ''csv'' ''snake_case'' ''camelCase'' = None
     \<and> lookup3 (acc st) ''csv'' ''snake_case'' ''camelCase'' = None"
proof -
  have "\<forall>x \<in> set (observations example_import [''csv'', ''nolib'', ''csv'']).
      \<exists>r. real_case (snd (snd x)) = Inr r"
    by (simp add: example_observations example_classified)
  then obtain st where st: "main example_import [''csv'', ''nolib'', ''csv''] = Inr st"
    using main_returns by blast
  note inv = aggregation_invariant [OF st, of "''csv''" "''snake_case''"]
  have 1: "counter_total (counter st) ''csv'' ''snake_case'' = 2"
    using inv [of "''snake_case''"]
    by (simp add: example_observations example_expected)
  have 2: "lookup3 (counter st) ''csv'' ''snake_case'' ''snake_case'' = Some 2
     \<and> lookup3 (acc st) ''csv'' ''snake_case'' ''snake_case''
         = Some {(builtin ''function'', ''reader'')}"
    using inv [of "''snake_case''"]
    by (auto simp: example_observations example_expected example_classified)
  have 3: "lookup3 (counter st) ''csv'' ''snake_case'' ''camelCase'' = None
     \<and> lookup3 (acc st) ''csv'' ''snake_case'' ''camelCase'' = None"
    using inv [of "''camelCase''"]
    by (simp add: example_observations example_expected example_classified)
  from st 1 2 3 show ?thesis by blast
qed

end
